theory Spec2Isabelle
  imports Main "HOL-Library.Word"
begin

section \<open>Kernel.cc: the pipeline registry and its execution loop\<close>

text \<open>
  The development follows \<^verbatim>\<open>src/core/Kernel.cc\<close>. Pointers to components are
  modelled by the position of the component in the vector that owns it (the vectors only
  grow, by \<^verbatim>\<open>push_back\<close>), a null pointer by \<open>None\<close>. Exceptions are values:
  every \<^verbatim>\<open>throw std::runtime_error(msg)\<close> of the source is \<open>Runtime_error msg\<close>.
\<close>

subsection \<open>Errors and formatted messages\<close>

datatype error =
    Runtime_error string   \<comment> \<open>\<^verbatim>\<open>std::runtime_error\<close> with its \<^verbatim>\<open>what()\<close> text\<close>
  | Out_of_range           \<comment> \<open>\<^verbatim>\<open>std::out_of_range\<close> of \<^verbatim>\<open>vector::at\<close>\<close>
  | Null_dereference       \<comment> \<open>a member access through a null pointer\<close>

text \<open>
  Modelled from the spec: \<^verbatim>\<open>Form\<close> is declared outside Kernel.cc (it arrives through
  \<^verbatim>\<open>Util.cc\<close>); the messages built with it have to name the requested type or file, so
  it is taken as \<^verbatim>\<open>printf\<close> formatting with \<^verbatim>\<open>%s\<close> as its only directive: the first
  \<^verbatim>\<open>%s\<close> of the format is replaced by the argument.
\<close>

fun Form :: "string \<Rightarrow> string \<Rightarrow> string" where
  "Form [] arg = []"
| "Form [c] arg = [c]"
| "Form (c # d # rest) arg =
     (if c = CHR ''%'' \<and> d = CHR ''s'' then arg @ rest else c # Form (d # rest) arg)"

subsection \<open>Node, Tool, Algorithm\<close>

datatype Status = Continue | SkipToNext | EndOfFile

text \<open>
  \<open>'w\<close> is the state of the concrete components (their own data members), on which the
  virtual member functions act. \<open>pipe\<close> is the private back pointer of \<^verbatim>\<open>Node\<close>
  (\<^verbatim>\<open>Pipeline* pipe_\<close>; a name that ends in an underscore cannot be written in a term);
  \<open>None\<close> stands for the pointer that \<^verbatim>\<open>Node() = default\<close> leaves without a value.
  \<open>dyn_type\<close> lists the \<^verbatim>\<open>typeid\<close> names of the object's class and of all its base
  classes: it decides \<^verbatim>\<open>dynamic_cast\<close>. The virtual \<^verbatim>\<open>connect\<close>, \<^verbatim>\<open>load\<close> and
  \<^verbatim>\<open>finalize\<close> may throw; those that receive the pipeline by reference are handed its
  address, and act on the state of the components. \<^verbatim>\<open>execute()\<close> is taken to return:
  its result is the status together with the new state of the components.
\<close>

record 'w Node =
  pipe :: "nat option"
  dyn_type :: "string list"
  connect :: "nat \<Rightarrow> 'w \<Rightarrow> error + 'w"

text \<open>
  \<^verbatim>\<open>class Tool : public Node\<close> declares nothing of its own. \<open>toolTag\<close> is the
  \<^verbatim>\<open>getTag()\<close> of the concrete tool class, which \<^verbatim>\<open>getTool<Tool, T>(tag)\<close> needs in
  order to compile.
\<close>

record 'w Tool = "'w Node" +
  toolTag :: "error + 32 word"

record 'w Algorithm = "'w Node" +
  load :: "string list \<Rightarrow> 'w \<Rightarrow> error + 'w"
  execute :: "'w \<Rightarrow> Status \<times> 'w"
  finalize :: "nat \<Rightarrow> 'w \<Rightarrow> error + 'w"
  isReader :: bool
  getTag :: "error + 32 word"

definition Algorithm_getTag :: "error + 32 word" where
  "Algorithm_getTag = Inl (Runtime_error ''getTag not implemented for this algorithm'')"

definition vetoIf :: "bool \<Rightarrow> Status" where
  "vetoIf cond = (if cond then SkipToNext else Continue)"

definition do_connect ::
  "nat \<Rightarrow> ('w, 'z) Node_scheme \<Rightarrow> 'w \<Rightarrow> error + (('w, 'z) Node_scheme \<times> 'w)" where
  "do_connect pipeline node w =
     (let node' = node\<lparr>pipe := Some pipeline\<rparr>
      in case connect node' pipeline w of
           Inl e \<Rightarrow> Inl e
         | Inr w' \<Rightarrow> Inr (node', w'))"

text \<open>
  The defaults of the base classes: the empty bodies of \<^verbatim>\<open>Node::connect\<close>,
  \<^verbatim>\<open>Algorithm::load\<close> and \<^verbatim>\<open>Algorithm::finalize\<close>, \<^verbatim>\<open>isReader\<close> returning
  \<^verbatim>\<open>false\<close>, and \<^verbatim>\<open>Algorithm::getTag\<close>. \<^verbatim>\<open>execute\<close> is pure virtual.
\<close>

definition Algorithm_base :: "string list \<Rightarrow> ('w \<Rightarrow> Status \<times> 'w) \<Rightarrow> 'w Algorithm" where
  "Algorithm_base types exec =
     \<lparr>pipe = None, dyn_type = types, connect = (\<lambda>pipeline w. Inr w),
      load = (\<lambda>inFiles w. Inr w), execute = exec, finalize = (\<lambda>pipeline w. Inr w),
      isReader = False, getTag = Algorithm_getTag\<rparr>"

definition Tool_base :: "string list \<Rightarrow> error + 32 word \<Rightarrow> 'w Tool" where
  "Tool_base types tag =
     \<lparr>pipe = None, dyn_type = types, connect = (\<lambda>pipeline w. Inr w), toolTag = tag\<rparr>"

subsection \<open>Pipeline\<close>

record TFile =
  fname :: string
  foption :: string

datatype file_event = Opened TFile | Closed TFile

text \<open>
  The data members of \<^verbatim>\<open>Pipeline\<close>, in the order of their declaration. An entry of
  \<open>outFileMap\<close> holds a \<^verbatim>\<open>unique_ptr<TFile>\<close>: \<open>Some None\<close> is an entry whose pointer
  is null. Five further fields record what the source does outside the object:
  \<open>world\<close> is the state of the concrete components, \<open>calls\<close> lists every call of
  \<^verbatim>\<open>execute()\<close> (position of the algorithm, status returned), \<open>cycles\<close> counts the
  passes through the body of \<^verbatim>\<open>while (true)\<close>, \<open>fileLog\<close> lists the \<^verbatim>\<open>TFile\<close>
  objects constructed and destroyed, and \<open>gDirectory\<close> is the file made current by
  \<^verbatim>\<open>TFile::cd\<close>.
\<close>

record 'w Pipeline =
  outFileMap :: "string \<rightharpoonup> TFile option"
  algVec :: "'w Algorithm list"
  runningReaders :: "nat set"
  toolVec :: "'w Tool list"
  inFilePaths :: "string list"
  inFileHandles :: "string \<rightharpoonup> TFile"
  world :: 'w
  calls :: "(nat \<times> Status) list"
  cycles :: nat
  fileLog :: "file_event list"
  gDirectory :: "TFile option"

definition DefaultFile :: string where
  "DefaultFile = ''''"

definition Pipeline_new :: "'w \<Rightarrow> 'w Pipeline" where
  "Pipeline_new w =
     \<lparr>outFileMap = Map.empty, algVec = [], runningReaders = {}, toolVec = [],
      inFilePaths = [], inFileHandles = Map.empty,
      world = w, calls = [], cycles = 0, fileLog = [], gDirectory = None\<rparr>"

subsubsection \<open>Construction\<close>

text \<open>
  \<^verbatim>\<open>makeThing\<close> constructs the component and appends it; the reference it returns is
  the position of the new element. The constructor of \<^verbatim>\<open>Node\<close> gives \<open>pipe\<close> no value.
\<close>

definition makeThing ::
  "('w, 'z) Node_scheme list \<Rightarrow> ('w, 'z) Node_scheme \<Rightarrow> nat \<times> ('w, 'z) Node_scheme list" where
  "makeThing vec thing = (length vec, vec @ [thing\<lparr>pipe := None\<rparr>])"

definition makeAlg :: "'w Algorithm \<Rightarrow> 'w Pipeline \<Rightarrow> nat \<times> 'w Pipeline" where
  "makeAlg a p =
     (let (alg, vec) = makeThing (algVec p) a;
          p1 = p\<lparr>algVec := vec\<rparr>
      in if isReader (vec ! alg)
         then (alg, p1\<lparr>runningReaders := insert alg (runningReaders p1)\<rparr>)
         else (alg, p1))"

definition makeTool :: "'w Tool \<Rightarrow> 'w Pipeline \<Rightarrow> nat \<times> 'w Pipeline" where
  "makeTool t p =
     (let (tool, vec) = makeThing (toolVec p) t
      in (tool, p\<lparr>toolVec := vec\<rparr>))"

subsubsection \<open>Lookup\<close>

definition dynamic_cast :: "string \<Rightarrow> ('w, 'z) Node_scheme \<Rightarrow> bool" where
  "dynamic_cast T thing = (T \<in> set (dyn_type thing))"

text \<open>
  The scan of \<^verbatim>\<open>getThing(vec, pred)\<close> from position \<open>i\<close> on. \<open>T\<close> is
  \<^verbatim>\<open>typeid(Thing).name()\<close>; a \<^verbatim>\<open>std::function\<close> that is \<^verbatim>\<open>nullptr\<close> is \<open>None\<close>;
  a predicate may throw, as the one built from \<^verbatim>\<open>getTag()\<close> does.
\<close>

fun getThing_from ::
  "nat \<Rightarrow> ('w, 'z) Node_scheme list \<Rightarrow> string \<Rightarrow>
   (('w, 'z) Node_scheme \<Rightarrow> error + bool) option \<Rightarrow> error + nat" where
  "getThing_from i [] T pred =
     Inl (Runtime_error (Form ''getThing() couldn't find %s'' T))"
| "getThing_from i (thing # rest) T pred =
     (if dynamic_cast T thing then
        (case pred of
           None \<Rightarrow> Inr i
         | Some f \<Rightarrow>
             (case f thing of
                Inl e \<Rightarrow> Inl e
              | Inr b \<Rightarrow> if b then Inr i else getThing_from (Suc i) rest T pred))
      else getThing_from (Suc i) rest T pred)"

definition getThing ::
  "('w, 'z) Node_scheme list \<Rightarrow> string \<Rightarrow>
   (('w, 'z) Node_scheme \<Rightarrow> error + bool) option \<Rightarrow> error + nat" where
  "getThing vec T pred = getThing_from 0 vec T pred"

definition getThing_tag ::
  "(('w, 'z) Node_scheme \<Rightarrow> error + 32 word) \<Rightarrow> ('w, 'z) Node_scheme list \<Rightarrow> string \<Rightarrow>
   32 word \<Rightarrow> error + nat" where
  "getThing_tag tagOf vec T tag =
     (let pred = (\<lambda>thing. case tagOf thing of
                             Inl e \<Rightarrow> Inl e
                           | Inr t \<Rightarrow> Inr (t = tag))
      in getThing vec T (Some pred))"

definition getAlg ::
  "'w Pipeline \<Rightarrow> string \<Rightarrow> ('w Algorithm \<Rightarrow> error + bool) option \<Rightarrow> error + nat" where
  "getAlg p T pred = getThing (algVec p) T pred"



definition getTool_tag :: "'w Pipeline \<Rightarrow> string \<Rightarrow> int \<Rightarrow> error + nat" where
  "getTool_tag p T tag = getThing_tag toolTag (toolVec p) T (word_of_int tag)"

subsubsection \<open>Output and input files\<close>

definition TFile_new :: "string \<Rightarrow> string \<Rightarrow> TFile" where
  "TFile_new path opt = \<lparr>fname = path, foption = opt\<rparr>"

text \<open>
  \<^verbatim>\<open>outFileMap.erase(it)\<close> destroys the \<^verbatim>\<open>unique_ptr\<close> of the entry, and with it the
  file it owns, if any.
\<close>

definition erase_outFile :: "string \<Rightarrow> 'w Pipeline \<Rightarrow> 'w Pipeline" where
  "erase_outFile name p =
     (case outFileMap p name of
        None \<Rightarrow> p
      | Some None \<Rightarrow> p\<lparr>outFileMap := (outFileMap p)(name := None)\<rparr>
      | Some (Some f) \<Rightarrow>
          p\<lparr>outFileMap := (outFileMap p)(name := None), fileLog := fileLog p @ [Closed f]\<rparr>)"

definition makeOutFile ::
  "string \<Rightarrow> string \<Rightarrow> bool \<Rightarrow> 'w Pipeline \<Rightarrow> (error + TFile option) \<times> 'w Pipeline" where
  "makeOutFile path name reopen p =
     (if outFileMap p name \<noteq> None \<and> \<not> reopen
      then (Inl (Runtime_error (Form ''file %s already opened'' name)), p)
      else
        (let p1 = (if outFileMap p name \<noteq> None then erase_outFile name p else p);
             f = TFile_new path ''RECREATE'';
             p2 = p1\<lparr>outFileMap := (outFileMap p1)(name \<mapsto> Some f),
                     fileLog := fileLog p1 @ [Opened f]\<rparr>
         in (Inr (Some f), p2)))"

text \<open>\<^verbatim>\<open>outFileMap[name]\<close> inserts an entry with a null pointer when there is none.\<close>

definition getOutFile :: "string \<Rightarrow> 'w Pipeline \<Rightarrow> TFile option \<times> 'w Pipeline" where
  "getOutFile name p =
     (case outFileMap p name of
        Some ptr \<Rightarrow> (ptr, p)
      | None \<Rightarrow> (None, p\<lparr>outFileMap := (outFileMap p)(name \<mapsto> None)\<rparr>))"

text \<open>
  The handles are kept under the whole path, a \<^verbatim>\<open>std::string\<close>; the file is opened
  with \<^verbatim>\<open>path.c_str()\<close>, which a \<^verbatim>\<open>const char*\<close> reader follows up to the first NUL.
\<close>

definition inFileCount :: "'w Pipeline \<Rightarrow> nat" where
  "inFileCount p = length (inFilePaths p)"

definition c_str :: "string \<Rightarrow> string" where
  "c_str s = takeWhile (\<lambda>c. c \<noteq> CHR 0x00) s"

definition inFile :: "nat \<Rightarrow> 'w Pipeline \<Rightarrow> (error + TFile) \<times> 'w Pipeline" where
  "inFile i p =
     (if i < length (inFilePaths p) then
        (let path = inFilePaths p ! i
         in case inFileHandles p path of
              Some f \<Rightarrow> (Inr f, p)
            | None \<Rightarrow>
                (let f = TFile_new (c_str path) ''''
                 in (Inr f, p\<lparr>inFileHandles := (inFileHandles p)(path \<mapsto> f),
                              fileLog := fileLog p @ [Opened f]\<rparr>)))
      else (Inl Out_of_range, p))"

text \<open>
  The body of \<^verbatim>\<open>for (const auto& alg : algVec)\<close> for the algorithm at position \<open>i\<close>.
  The flag returned is \<open>True\<close> when the body leaves the loop with \<^verbatim>\<open>break\<close>.
\<close>

definition body :: "nat \<Rightarrow> 'w Algorithm \<Rightarrow> 'w Pipeline \<Rightarrow> bool \<times> 'w Pipeline" where
  "body i alg p =
     (if isReader alg \<and> i \<notin> runningReaders p then (False, p)
      else
        (let (status, w') = execute alg (world p);
             p1 = p\<lparr>world := w', calls := calls p @ [(i, status)]\<rparr>
         in if status = SkipToNext then (True, p1)
            else if status = EndOfFile
            then (False, p1\<lparr>runningReaders := runningReaders p1 - {i}\<rparr>)
            else (False, p1)))"

fun for_algs :: "nat \<Rightarrow> 'w Algorithm list \<Rightarrow> 'w Pipeline \<Rightarrow> 'w Pipeline" where
  "for_algs i [] p = p"
| "for_algs i (alg # rest) p =
     (case body i alg p of
        (True, p') \<Rightarrow> p'
      | (False, p') \<Rightarrow> for_algs (Suc i) rest p')"

text \<open>One pass through the body of \<^verbatim>\<open>while (true)\<close>, up to the test that ends it.\<close>

definition cycle :: "'w Pipeline \<Rightarrow> 'w Pipeline" where
  "cycle p = for_algs 0 (algVec p) (p\<lparr>cycles := Suc (cycles p)\<rparr>)"

text \<open>The loop may run forever: then \<open>while_loop\<close> is \<open>None\<close>.\<close>

partial_function (option) while_loop :: "'w Pipeline \<Rightarrow> 'w Pipeline option" where
  "while_loop p =
     (if runningReaders (cycle p) = {} then Some (cycle p) else while_loop (cycle p))"

subsubsection \<open>process\<close>

fun load_all :: "string list \<Rightarrow> 'w Algorithm list \<Rightarrow> 'w \<Rightarrow> error + 'w" where
  "load_all inFiles [] w = Inr w"
| "load_all inFiles (alg # rest) w =
     (case load alg inFiles w of
        Inl e \<Rightarrow> Inl e
      | Inr w' \<Rightarrow> load_all inFiles rest w')"

fun connect_all ::
  "nat \<Rightarrow> ('w, 'z) Node_scheme list \<Rightarrow> 'w \<Rightarrow> error + (('w, 'z) Node_scheme list \<times> 'w)" where
  "connect_all pipeline [] w = Inr ([], w)"
| "connect_all pipeline (node # rest) w =
     (case do_connect pipeline node w of
        Inl e \<Rightarrow> Inl e
      | Inr (node', w') \<Rightarrow>
          (case connect_all pipeline rest w' of
             Inl e \<Rightarrow> Inl e
           | Inr (rest', w'') \<Rightarrow> Inr (node' # rest', w'')))"

fun finalize_all :: "nat \<Rightarrow> 'w Algorithm list \<Rightarrow> 'w \<Rightarrow> error + 'w" where
  "finalize_all pipeline [] w = Inr w"
| "finalize_all pipeline (alg # rest) w =
     (case finalize alg pipeline w of
        Inl e \<Rightarrow> Inl e
      | Inr w' \<Rightarrow> finalize_all pipeline rest w')"

text \<open>Lines 238 to 247: the input paths are stored, then the load and connect phases.\<close>

definition load_and_connect :: "nat \<Rightarrow> string list \<Rightarrow> 'w Pipeline \<Rightarrow> error + 'w Pipeline" where
  "load_and_connect self inFiles p =
     (let p0 = p\<lparr>inFilePaths := inFiles\<rparr>
      in case load_all inFiles (algVec p0) (world p0) of
           Inl e \<Rightarrow> Inl e
         | Inr w1 \<Rightarrow>
             (case connect_all self (algVec p0) w1 of
                Inl e \<Rightarrow> Inl e
              | Inr (algs, w2) \<Rightarrow>
                  (case connect_all self (toolVec p0) w2 of
                     Inl e \<Rightarrow> Inl e
                   | Inr (tools, w3) \<Rightarrow>
                       Inr (p0\<lparr>algVec := algs, toolVec := tools, world := w3\<rparr>))))"

text \<open>
  Lines 265 to 270. \<^verbatim>\<open>getOutFile()->cd()\<close> goes through the pointer of the default
  entry, which is null when the entry was made by \<^verbatim>\<open>getOutFile\<close>.
\<close>

definition cd_default :: "'w Pipeline \<Rightarrow> error + 'w Pipeline" where
  "cd_default p =
     (if outFileMap p DefaultFile \<noteq> None then
        (case getOutFile DefaultFile p of
           (None, p') \<Rightarrow> Inl Null_dereference
         | (Some f, p') \<Rightarrow> Inr (p'\<lparr>gDirectory := Some f\<rparr>))
      else Inr p)"

definition finish :: "nat \<Rightarrow> 'w Pipeline \<Rightarrow> error + 'w Pipeline" where
  "finish self p =
     (case cd_default p of
        Inl e \<Rightarrow> Inl e
      | Inr p' \<Rightarrow>
          (case finalize_all self (algVec p') (world p') of
             Inl e \<Rightarrow> Inl e
           | Inr w' \<Rightarrow> Inr (p'\<lparr>world := w'\<rparr>)))"

text \<open>
  \<open>self\<close> is the address of the pipeline (\<^verbatim>\<open>*this\<close>). The result is \<open>None\<close> when
  the loop never ends, \<open>Some (Inl e)\<close> when an exception leaves \<^verbatim>\<open>process\<close>.
\<close>

definition process :: "nat \<Rightarrow> string list \<Rightarrow> 'w Pipeline \<Rightarrow> (error + 'w Pipeline) option" where
  "process self inFiles p =
     (case load_and_connect self inFiles p of
        Inl e \<Rightarrow> Some (Inl e)
      | Inr p1 \<Rightarrow>
          (case while_loop p1 of
             None \<Rightarrow> None
           | Some p2 \<Rightarrow> Some (finish self p2)))"

subsection \<open>SimpleAlg and PureAlg\<close>

text \<open>
  \<^verbatim>\<open>SimpleAlg<ReaderT>\<close> assumes a \<^verbatim>\<open>ReaderT\<close> with a member function \<^verbatim>\<open>ready()\<close>
  and a data member \<^verbatim>\<open>data\<close>. Its own data member is the pointer \<open>reader\<close>, null
  at construction. \<open>deref r w\<close> is the reader object found at \<open>r\<close> in the state \<open>w\<close>.
\<close>

record 'd ReaderT =
  ready :: bool
  data :: 'd

record SimpleAlg =
  reader :: "nat option"

definition SimpleAlg_new :: SimpleAlg where
  "SimpleAlg_new = \<lparr>reader = None\<rparr>"

text \<open>
  \<^verbatim>\<open>connect\<close> returns nothing; the model returns the exception, if one is thrown,
  together with the object as the call leaves it.
\<close>

definition SimpleAlg_connect ::
  "string \<Rightarrow> 'w Pipeline \<Rightarrow> SimpleAlg \<Rightarrow> (error + unit) \<times> SimpleAlg" where
  "SimpleAlg_connect R pipeline a =
     (case getAlg pipeline R None of
        Inl e \<Rightarrow> (Inl e, a)
      | Inr r \<Rightarrow> (Inr (), a\<lparr>reader := Some r\<rparr>))"

definition SimpleAlg_execute ::
  "(nat \<Rightarrow> 'w \<Rightarrow> 'd ReaderT) \<Rightarrow> ('d \<Rightarrow> 'w \<Rightarrow> Status \<times> 'w) \<Rightarrow> SimpleAlg \<Rightarrow> 'w \<Rightarrow>
   error + Status \<times> 'w" where
  "SimpleAlg_execute deref consume a w =
     (case reader a of
        None \<Rightarrow> Inl Null_dereference
      | Some r \<Rightarrow>
          if ready (deref r w) then Inr (consume (data (deref r w)) w)
          else Inr (Continue, w))"

definition PureAlg_consume :: "('d \<Rightarrow> 'w \<Rightarrow> Status \<times> 'w) \<Rightarrow> 'd \<Rightarrow> 'w \<Rightarrow> Status \<times> 'w" where
  "PureAlg_consume func d w = func d w"

subsection \<open>Example components and pipelines\<close>

text \<open>
  Components whose state is one counter each: the state of the components is a function
  from the slot of a component to the number of times its \<^verbatim>\<open>execute()\<close> has run, and
  the status returned is a function of that number.
\<close>

definition scripted ::
  "string list \<Rightarrow> bool \<Rightarrow> nat \<Rightarrow> (nat \<Rightarrow> Status) \<Rightarrow> (nat \<Rightarrow> nat) Algorithm" where
  "scripted types rd slot script =
     (Algorithm_base types (\<lambda>w. (script (Suc (w slot)), w(slot := Suc (w slot)))))
       \<lparr>isReader := rd\<rparr>"

definition reader_until :: "string \<Rightarrow> nat \<Rightarrow> nat \<Rightarrow> (nat \<Rightarrow> nat) Algorithm" where
  "reader_until T slot k =
     scripted [T, ''Algorithm'', ''Node''] True slot (\<lambda>n. if n = k then EndOfFile else Continue)"

definition logger :: "nat \<Rightarrow> (nat \<Rightarrow> nat) Algorithm" where
  "logger slot = scripted [''Logger'', ''Algorithm'', ''Node''] False slot (\<lambda>n. Continue)"

definition selector :: "nat \<Rightarrow> (nat \<Rightarrow> nat) Algorithm" where
  "selector slot =
     scripted [''Selector'', ''Algorithm'', ''Node''] False slot (\<lambda>n. vetoIf (n = 1))"

definition muon_pipeline :: "(nat \<Rightarrow> nat) Pipeline" where
  "muon_pipeline =
     snd (makeTool (Tool_base [''Calib'', ''Tool'', ''Node''] (Inr 0))
       (snd (makeAlg (reader_until ''MuonReader'' 2 1)
         (snd (makeAlg (reader_until ''MuonReader'' 1 1)
           (snd (makeAlg (logger 0) (Pipeline_new (\<lambda>slot. 0)))))))))"

definition veto_pipeline :: "(nat \<Rightarrow> nat) Pipeline" where
  "veto_pipeline =
     snd (makeAlg (logger 2)
       (snd (makeAlg (selector 1)
         (snd (makeAlg (reader_until ''MuonReader'' 0 2) (Pipeline_new (\<lambda>slot. 0)))))))"

definition logger_pipeline :: "(nat \<Rightarrow> nat) Pipeline" where
  "logger_pipeline = snd (makeAlg (logger 0) (Pipeline_new (\<lambda>slot. 0)))"


definition eof_first_pipeline :: "(nat \<Rightarrow> nat) Pipeline" where
  "eof_first_pipeline =
     snd (makeAlg (logger 2)
       (snd (makeAlg (logger 1)
         (snd (makeAlg (reader_until ''MuonReader'' 0 1) (Pipeline_new (\<lambda>slot. 0)))))))"

definition hists_pipeline :: "unit Pipeline" where
  "hists_pipeline = snd (makeOutFile ''a.root'' ''hists'' False (Pipeline_new ()))"

section \<open>Properties\<close>

subsection \<open>Formatted messages\<close>

lemma Form_already_opened:
  "Form ''file %s already opened'' name = ''file '' @ name @ '' already opened''"
  by simp

lemma Form_not_found:
  "Form ''getThing() couldn't find %s'' T = ''getThing() couldn't find '' @ T"
  by simp

subsection \<open>The example pipelines\<close>

lemmas mock_defs =
  logger_def selector_def reader_until_def scripted_def Algorithm_base_def Tool_base_def

lemma muon_pipeline_eq:
  "muon_pipeline =
     (Pipeline_new (\<lambda>slot. 0))
       \<lparr>algVec := [logger 0, reader_until ''MuonReader'' 1 1, reader_until ''MuonReader'' 2 1],
        runningReaders := {1, 2},
        toolVec := [Tool_base [''Calib'', ''Tool'', ''Node''] (Inr 0)]\<rparr>"
  by (simp add: muon_pipeline_def makeAlg_def makeTool_def makeThing_def Pipeline_new_def
      logger_def reader_until_def scripted_def Algorithm_base_def Tool_base_def Let_def
      insert_commute eval_nat_numeral)

lemma veto_pipeline_eq:
  "veto_pipeline =
     (Pipeline_new (\<lambda>slot. 0))
       \<lparr>algVec := [reader_until ''MuonReader'' 0 2, selector 1, logger 2],
        runningReaders := {0}\<rparr>"
  by (simp add: veto_pipeline_def makeAlg_def makeThing_def Pipeline_new_def
      logger_def selector_def reader_until_def scripted_def Algorithm_base_def Let_def)

lemma logger_pipeline_eq:
  "logger_pipeline = (Pipeline_new (\<lambda>slot. 0))\<lparr>algVec := [logger 0]\<rparr>"
  by (simp add: logger_pipeline_def makeAlg_def makeThing_def Pipeline_new_def mock_defs Let_def)


lemma eof_first_pipeline_eq:
  "eof_first_pipeline =
     (Pipeline_new (\<lambda>slot. 0))
       \<lparr>algVec := [reader_until ''MuonReader'' 0 1, logger 1, logger 2],
        runningReaders := {0}\<rparr>"
  by (simp add: eof_first_pipeline_def makeAlg_def makeThing_def Pipeline_new_def mock_defs Let_def)

lemma hists_pipeline_eq:
  "hists_pipeline = (Pipeline_new ())
     \<lparr>outFileMap := [''hists'' \<mapsto> Some (TFile_new ''a.root'' ''RECREATE'')],
      fileLog := [Opened (TFile_new ''a.root'' ''RECREATE'')]\<rparr>"
  by (simp add: hists_pipeline_def makeOutFile_def Pipeline_new_def Let_def)

lemma map_const_on_set:
  "\<forall>x\<in>set xs. f x = c \<Longrightarrow> map f xs = replicate (length xs) c"
  by (induction xs) auto

subsection \<open>Output files\<close>

text \<open>
  C7: \<^verbatim>\<open>getOutFile(name)\<close> returns the pointer bound to \<open>name\<close> when there is an
  entry, and leaves the pipeline as it is; when there is no entry, an entry with a null
  pointer is inserted under \<open>name\<close>, nothing else changes, and the pointer of that new
  entry is what is returned.
\<close>

theorem getOutFile_bound_or_default:
  "(outFileMap p name = Some ptr \<longrightarrow> getOutFile name p = (ptr, p)) \<and>
   (outFileMap p name = None \<longrightarrow>
      getOutFile name p = (None, p\<lparr>outFileMap := (outFileMap p)(name \<mapsto> None)\<rparr>) \<and>
      outFileMap (snd (getOutFile name p)) name = Some (fst (getOutFile name p)))"
  by (simp add: getOutFile_def)

theorem getOutFile_bound_or_default_witness:
  "getOutFile ''hists'' (snd (makeOutFile ''out.root'' ''hists'' False (Pipeline_new ())))
     = (Some (TFile_new ''out.root'' ''RECREATE''),
        snd (makeOutFile ''out.root'' ''hists'' False (Pipeline_new ()))) \<and>
   getOutFile ''hists'' (Pipeline_new ())
     = (None, (Pipeline_new ())\<lparr>outFileMap := [''hists'' \<mapsto> None]\<rparr>)"
proof -
  let ?p = "snd (makeOutFile ''out.root'' ''hists'' False (Pipeline_new ()))"
  have bound: "outFileMap ?p ''hists'' = Some (Some (TFile_new ''out.root'' ''RECREATE''))"
    by (simp add: makeOutFile_def Pipeline_new_def Let_def)
  have unbound: "outFileMap (Pipeline_new ()) ''hists'' = None"
    by (simp add: Pipeline_new_def)
  have empty: "outFileMap (Pipeline_new ()) = Map.empty"
    by (simp add: Pipeline_new_def)
  from getOutFile_bound_or_default [of ?p "''hists''"] bound
  have 1: "getOutFile ''hists'' ?p = (Some (TFile_new ''out.root'' ''RECREATE''), ?p)"
    by blast
  from getOutFile_bound_or_default [of "Pipeline_new ()" "''hists''"] unbound
  have 2: "getOutFile ''hists'' (Pipeline_new ())
             = (None, (Pipeline_new ())\<lparr>outFileMap := (outFileMap (Pipeline_new ()))(''hists'' \<mapsto> None)\<rparr>)"
    by blast
  from 1 2 show ?thesis by (simp only: empty)
qed

text \<open>
  C6: when \<open>name\<close> has an entry in the output map, \<^verbatim>\<open>makeOutFile(path, name)\<close>
  without \<^verbatim>\<open>reopen\<close> throws the runtime error "file \<open>name\<close> already opened" and
  leaves the pipeline, its entry included, as it was. With \<^verbatim>\<open>reopen = true\<close> the call
  succeeds: the old entry is erased, which destroys the file it owned (if its pointer was
  not null), then the new file is created at \<open>path\<close>, bound to \<open>name\<close> and
  returned.
\<close>

theorem makeOutFile_conflict_and_reopen:
  "outFileMap p name = Some h \<Longrightarrow>
   makeOutFile path name False p
     = (Inl (Runtime_error (''file '' @ name @ '' already opened'')), p) \<and>
   makeOutFile path name True p
     = (Inr (Some (TFile_new path ''RECREATE'')),
        p\<lparr>outFileMap := (outFileMap p)(name \<mapsto> Some (TFile_new path ''RECREATE'')),
          fileLog := fileLog p @ (case h of None \<Rightarrow> [] | Some old \<Rightarrow> [Closed old])
                       @ [Opened (TFile_new path ''RECREATE'')]\<rparr>)"
  by (auto simp: makeOutFile_def erase_outFile_def Let_def split: option.splits)

theorem makeOutFile_conflict_and_reopen_witness:
  "makeOutFile ''b.root'' ''hists'' False hists_pipeline
     = (Inl (Runtime_error ''file hists already opened''), hists_pipeline) \<and>
   makeOutFile ''b.root'' ''hists'' True hists_pipeline
     = (Inr (Some (TFile_new ''b.root'' ''RECREATE'')),
        (Pipeline_new ())
          \<lparr>outFileMap := [''hists'' \<mapsto> Some (TFile_new ''b.root'' ''RECREATE'')],
           fileLog := [Opened (TFile_new ''a.root'' ''RECREATE''),
                       Closed (TFile_new ''a.root'' ''RECREATE''),
                       Opened (TFile_new ''b.root'' ''RECREATE'')]\<rparr>)"
proof -
  have b: "outFileMap hists_pipeline ''hists'' = Some (Some (TFile_new ''a.root'' ''RECREATE''))"
    by (simp add: hists_pipeline_eq Pipeline_new_def)
  from makeOutFile_conflict_and_reopen [OF b, of "''b.root''"]
  show ?thesis
    by (simp add: hists_pipeline_eq Pipeline_new_def)
qed

text \<open>
  C10: for a name under which \<^verbatim>\<open>makeOutFile\<close> has bound no file (no entry, or an
  entry with a null pointer), \<^verbatim>\<open>getOutFile(name)\<close> returns a null pointer and leaves an
  entry with a null pointer under \<open>name\<close>; no file is created. A following
  \<^verbatim>\<open>makeOutFile(path, name)\<close> without \<^verbatim>\<open>reopen\<close> then throws "file \<open>name\<close>
  already opened" and changes nothing.
\<close>

theorem getOutFile_blocks_makeOutFile:
  "\<forall>f. outFileMap p name \<noteq> Some (Some f) \<Longrightarrow>
   fst (getOutFile name p) = None \<and>
   outFileMap (snd (getOutFile name p)) name = Some None \<and>
   fileLog (snd (getOutFile name p)) = fileLog p \<and>
   makeOutFile path name False (snd (getOutFile name p))
     = (Inl (Runtime_error (''file '' @ name @ '' already opened'')), snd (getOutFile name p))"
  by (cases "outFileMap p name") (auto simp: getOutFile_def makeOutFile_def)

theorem getOutFile_blocks_makeOutFile_witness:
  "fst (getOutFile ''tree'' hists_pipeline) = None \<and>
   outFileMap (snd (getOutFile ''tree'' hists_pipeline)) ''tree'' = Some None \<and>
   fileLog (snd (getOutFile ''tree'' hists_pipeline)) = [Opened (TFile_new ''a.root'' ''RECREATE'')] \<and>
   makeOutFile ''t.root'' ''tree'' False (snd (getOutFile ''tree'' hists_pipeline))
     = (Inl (Runtime_error ''file tree already opened''), snd (getOutFile ''tree'' hists_pipeline))"
proof -
  have u: "\<forall>f. outFileMap hists_pipeline ''tree'' \<noteq> Some (Some f)"
    by (simp add: hists_pipeline_eq Pipeline_new_def)
  have l: "fileLog hists_pipeline = [Opened (TFile_new ''a.root'' ''RECREATE'')]"
    by (simp add: hists_pipeline_eq)
  from getOutFile_blocks_makeOutFile [OF u, of "''t.root''"] l
  show ?thesis by simp
qed

subsection \<open>Lookup\<close>

lemma getThing_from_not_found:
  "\<forall>x\<in>set vec. \<not> dynamic_cast T x \<or> (\<exists>f. pred = Some f \<and> f x = Inr False) \<Longrightarrow>
   getThing_from i vec T pred = Inl (Runtime_error (''getThing() couldn't find '' @ T))"
  by (induction vec arbitrary: i) (auto split: option.splits sum.splits)


lemma getThing_from_first:
  "\<exists>x\<in>set vec. dynamic_cast T x \<Longrightarrow>
   \<exists>r. getThing_from i vec T None = Inr (i + r) \<and> r < length vec \<and>
       dynamic_cast T (vec ! r) \<and> (\<forall>j<r. \<not> dynamic_cast T (vec ! j))"
proof (induction vec arbitrary: i)
  case Nil
  then show ?case by simp
next
  case (Cons x vec)
  show ?case
  proof (cases "dynamic_cast T x")
    case True
    then have "getThing_from i (x # vec) T None = Inr (i + 0) \<and> 0 < length (x # vec) \<and>
       dynamic_cast T ((x # vec) ! 0) \<and> (\<forall>j<0. \<not> dynamic_cast T ((x # vec) ! j))"
      by simp
    then show ?thesis by blast
  next
    case False
    with Cons.prems have "\<exists>y\<in>set vec. dynamic_cast T y" by auto
    from Cons.IH [OF this, of "Suc i"] obtain r where
      r: "getThing_from (Suc i) vec T None = Inr (Suc i + r)" "r < length vec"
         "dynamic_cast T (vec ! r)" "\<forall>j<r. \<not> dynamic_cast T (vec ! j)"
      by blast
    have "\<forall>j<Suc r. \<not> dynamic_cast T ((x # vec) ! j)"
      using False r(4) by (auto simp: less_Suc_eq_0_disj)
    with False r have "getThing_from i (x # vec) T None = Inr (i + Suc r) \<and>
       Suc r < length (x # vec) \<and> dynamic_cast T ((x # vec) ! Suc r) \<and>
       (\<forall>j<Suc r. \<not> dynamic_cast T ((x # vec) ! j))"
      by simp
    then show ?thesis by blast
  qed
qed




subsection \<open>SimpleAlg\<close>

text \<open>
  C8: \<^verbatim>\<open>SimpleAlg<R>::connect\<close> stores in \<open>reader\<close> the first registered algorithm
  that casts to \<open>R\<close>. When there is none, nothing is stored: the lookup throws the
  runtime error "getThing() couldn't find \<open>R\<close>" and the object is left as it was, so
  the \<open>reader\<close> of an adapter not connected before is still null, and an
  \<^verbatim>\<open>execute()\<close> that follows goes through the null pointer. With a reader bound,
  \<^verbatim>\<open>execute()\<close> returns what \<^verbatim>\<open>consume\<close> returns on the reader's \<open>data\<close> when the
  reader is ready, and otherwise returns \<open>Continue\<close> and leaves the state as it is,
  \<^verbatim>\<open>consume\<close> not being called.
\<close>

theorem SimpleAlg_connect_execute:
  "((\<exists>a\<in>set (algVec p). dynamic_cast R a) \<longrightarrow>
      (\<exists>r. SimpleAlg_connect R p s = (Inr (), s\<lparr>reader := Some r\<rparr>) \<and> r < length (algVec p) \<and>
           dynamic_cast R (algVec p ! r) \<and> (\<forall>j<r. \<not> dynamic_cast R (algVec p ! j)))) \<and>
   ((\<forall>a\<in>set (algVec p). \<not> dynamic_cast R a) \<longrightarrow>
      SimpleAlg_connect R p s = (Inl (Runtime_error (''getThing() couldn't find '' @ R)), s) \<and>
      (reader s = None \<longrightarrow>
         SimpleAlg_execute deref consume (snd (SimpleAlg_connect R p s)) w
           = Inl Null_dereference)) \<and>
   (reader s = Some r \<and> ready (deref r w) \<longrightarrow>
      SimpleAlg_execute deref consume s w = Inr (consume (data (deref r w)) w)) \<and>
   (reader s = Some r \<and> \<not> ready (deref r w) \<longrightarrow>
      SimpleAlg_execute deref consume s w = Inr (Continue, w))"
proof -
  have found: "\<exists>r. SimpleAlg_connect R p s = (Inr (), s\<lparr>reader := Some r\<rparr>) \<and>
           r < length (algVec p) \<and>
           dynamic_cast R (algVec p ! r) \<and> (\<forall>j<r. \<not> dynamic_cast R (algVec p ! j))"
    if "\<exists>a\<in>set (algVec p). dynamic_cast R a"
    using getThing_from_first [OF that, of 0]
    by (auto simp: SimpleAlg_connect_def getAlg_def getThing_def)
  have missing: "SimpleAlg_connect R p s
               = (Inl (Runtime_error (''getThing() couldn't find '' @ R)), s)"
    if "\<forall>a\<in>set (algVec p). \<not> dynamic_cast R a"
  proof -
    from that have "getThing_from 0 (algVec p) R None
               = Inl (Runtime_error (''getThing() couldn't find '' @ R))"
      by (intro getThing_from_not_found) blast
    then show ?thesis by (simp add: SimpleAlg_connect_def getAlg_def getThing_def)
  qed
  have later: "SimpleAlg_execute deref consume (snd (SimpleAlg_connect R p s)) w
                 = Inl Null_dereference"
    if "\<forall>a\<in>set (algVec p). \<not> dynamic_cast R a" "reader s = None"
    using missing [OF that(1)] that(2) by (simp add: SimpleAlg_execute_def)
  have run: "reader s = Some r \<and> ready (deref r w) \<longrightarrow>
      SimpleAlg_execute deref consume s w = Inr (consume (data (deref r w)) w)"
    "reader s = Some r \<and> \<not> ready (deref r w) \<longrightarrow>
      SimpleAlg_execute deref consume s w = Inr (Continue, w)"
    by (simp_all add: SimpleAlg_execute_def)
  from found missing later run show ?thesis by blast
qed

theorem SimpleAlg_connect_execute_witness:
  "SimpleAlg_connect ''MuonReader'' muon_pipeline SimpleAlg_new = (Inr (), \<lparr>reader = Some 1\<rparr>) \<and>
   SimpleAlg_connect ''IbdReader'' muon_pipeline SimpleAlg_new
     = (Inl (Runtime_error ''getThing() couldn't find IbdReader''), SimpleAlg_new) \<and>
   SimpleAlg_execute (\<lambda>r w. \<lparr>ready = True, data = w r\<rparr>) (\<lambda>d w. (vetoIf (d < 7), w))
       (snd (SimpleAlg_connect ''IbdReader'' muon_pipeline SimpleAlg_new)) (\<lambda>slot. 5::nat)
     = Inl Null_dereference \<and>
   SimpleAlg_execute (\<lambda>r w. \<lparr>ready = True, data = w r\<rparr>) (\<lambda>d w. (vetoIf (d < 7), w))
       \<lparr>reader = Some 1\<rparr> (\<lambda>slot. 5::nat) = Inr (SkipToNext, \<lambda>slot. 5::nat) \<and>
   SimpleAlg_execute (\<lambda>r w. \<lparr>ready = False, data = w r\<rparr>) (\<lambda>d w. (SkipToNext, w(0 := d)))
       \<lparr>reader = Some 1\<rparr> (\<lambda>slot. 5::nat) = Inr (Continue, \<lambda>slot. 5::nat)"
proof -
  let ?p = muon_pipeline
  have vec: "algVec ?p = [logger 0, reader_until ''MuonReader'' 1 1, reader_until ''MuonReader'' 2 1]"
    by (simp add: muon_pipeline_eq)
  have dc: "\<not> dynamic_cast ''MuonReader'' (logger 0)"
    "dynamic_cast ''MuonReader'' (reader_until ''MuonReader'' 1 1)"
    "\<not> dynamic_cast ''IbdReader'' (logger 0)"
    "\<not> dynamic_cast ''IbdReader'' (reader_until ''MuonReader'' 1 1)"
    "\<not> dynamic_cast ''IbdReader'' (reader_until ''MuonReader'' 2 1)"
    by (simp_all add: dynamic_cast_def mock_defs)
  have fresh: "reader SimpleAlg_new = None" by (simp add: SimpleAlg_new_def)
  note inst1 = SimpleAlg_connect_execute
      [where p = ?p and R = "''MuonReader''" and s = SimpleAlg_new and r = 1
         and deref = "\<lambda>r w. \<lparr>ready = True, data = w r\<rparr>"
         and consume = "\<lambda>d w. (vetoIf (d < 7), w)" and w = "\<lambda>slot. 5::nat"]
  note inst2 = SimpleAlg_connect_execute
      [where p = ?p and R = "''IbdReader''" and s = "\<lparr>reader = Some 1\<rparr>" and r = 1
         and deref = "\<lambda>r w. \<lparr>ready = False, data = w r\<rparr>"
         and consume = "\<lambda>d w. (SkipToNext, w(0 := d))" and w = "\<lambda>slot. 5::nat"]
  note inst3 = SimpleAlg_connect_execute
      [where p = ?p and R = "''IbdReader''" and s = "\<lparr>reader = Some 1\<rparr>" and r = 1
         and deref = "\<lambda>r w. \<lparr>ready = True, data = w r\<rparr>"
         and consume = "\<lambda>d w. (vetoIf (d < 7), w)" and w = "\<lambda>slot. 5::nat"]
  note inst4 = SimpleAlg_connect_execute
      [where p = ?p and R = "''IbdReader''" and s = SimpleAlg_new and r = 1
         and deref = "\<lambda>r w. \<lparr>ready = True, data = w r\<rparr>"
         and consume = "\<lambda>d w. (vetoIf (d < 7), w)" and w = "\<lambda>slot. 5::nat"]
  have some: "\<exists>a\<in>set (algVec ?p). dynamic_cast ''MuonReader'' a"
    using vec dc by simp
  from inst1 some obtain r where r: "SimpleAlg_connect ''MuonReader'' ?p SimpleAlg_new
      = (Inr (), SimpleAlg_new\<lparr>reader := Some r\<rparr>)" "r < length (algVec ?p)"
      "dynamic_cast ''MuonReader'' (algVec ?p ! r)"
      "\<forall>j<r. \<not> dynamic_cast ''MuonReader'' (algVec ?p ! j)"
    by blast
  from r(2) vec have r3: "r < 3" by simp
  have "r = 1"
  proof (rule ccontr)
    assume "r \<noteq> 1"
    with r3 have "r = 0 \<or> r = 2" by arith
    then show False
    proof
      assume "r = 0" with r(3) vec dc show False by simp
    next
      assume "r = 2"
      with r(4) have "\<not> dynamic_cast ''MuonReader'' (algVec ?p ! 1)" by simp
      with vec dc show False by simp
    qed
  qed
  with r(1) have c1: "SimpleAlg_connect ''MuonReader'' ?p SimpleAlg_new
      = (Inr (), \<lparr>reader = Some 1\<rparr>)"
    by (simp add: SimpleAlg_new_def)
  have none: "\<forall>a\<in>set (algVec ?p). \<not> dynamic_cast ''IbdReader'' a"
    using vec dc by simp
  from inst4 none have c2: "SimpleAlg_connect ''IbdReader'' ?p SimpleAlg_new
     = (Inl (Runtime_error (''getThing() couldn't find '' @ ''IbdReader'')), SimpleAlg_new)"
    and "reader SimpleAlg_new = None \<longrightarrow>
      SimpleAlg_execute (\<lambda>r w. \<lparr>ready = True, data = w r\<rparr>) (\<lambda>d w. (vetoIf (d < 7), w))
        (snd (SimpleAlg_connect ''IbdReader'' ?p SimpleAlg_new)) (\<lambda>slot. 5::nat)
      = Inl Null_dereference"
    by blast+
  with fresh have c5: "SimpleAlg_execute (\<lambda>r w. \<lparr>ready = True, data = w r\<rparr>)
        (\<lambda>d w. (vetoIf (d < 7), w))
        (snd (SimpleAlg_connect ''IbdReader'' ?p SimpleAlg_new)) (\<lambda>slot. 5::nat)
      = Inl Null_dereference"
    by blast
  from inst3 have c3: "SimpleAlg_execute (\<lambda>r w. \<lparr>ready = True, data = w r\<rparr>) (\<lambda>d w. (vetoIf (d < 7), w))
       \<lparr>reader = Some 1\<rparr> (\<lambda>slot. 5::nat) = Inr (SkipToNext, \<lambda>slot. 5::nat)"
    by (simp add: vetoIf_def)
  from inst2 have c4: "SimpleAlg_execute (\<lambda>r w. \<lparr>ready = False, data = w r\<rparr>) (\<lambda>d w. (SkipToNext, w(0 := d)))
       \<lparr>reader = Some 1\<rparr> (\<lambda>slot. 5::nat) = Inr (Continue, \<lambda>slot. 5::nat)"
    by simp
  from c1 c2 c3 c4 c5 show ?thesis by simp
qed

subsection \<open>The loop keeps the registry\<close>

lemma connect_all_sets_pipe:
  "connect_all self vec w = Inr (vec', w') \<Longrightarrow> vec' = map (\<lambda>n. n\<lparr>pipe := Some self\<rparr>) vec"
  by (induction vec arbitrary: w vec' w')
     (auto simp: do_connect_def Let_def split: sum.splits prod.splits)

lemma load_and_connect_vecs:
  "load_and_connect self inFiles p = Inr p1 \<Longrightarrow>
   algVec p1 = map (\<lambda>n. n\<lparr>pipe := Some self\<rparr>) (algVec p) \<and>
   toolVec p1 = map (\<lambda>n. n\<lparr>pipe := Some self\<rparr>) (toolVec p)"
  by (auto simp: load_and_connect_def Let_def split: sum.splits prod.splits
      dest!: connect_all_sets_pipe)

lemma body_vecs:
  "algVec (snd (body i alg p)) = algVec p \<and> toolVec (snd (body i alg p)) = toolVec p"
  by (simp add: body_def Let_def split: prod.splits)

lemma for_algs_vecs:
  "algVec (for_algs i algs p) = algVec p \<and> toolVec (for_algs i algs p) = toolVec p"
proof (induction algs arbitrary: i p)
  case Nil
  show ?case by simp
next
  case (Cons alg rest)
  obtain b p' where bp: "body i alg p = (b, p')" by (cases "body i alg p")
  with body_vecs [of i alg p] have "algVec p' = algVec p \<and> toolVec p' = toolVec p" by simp
  with bp Cons.IH [of "Suc i" p'] show ?case by (cases b) simp_all
qed

lemma cycle_vecs: "algVec (cycle p) = algVec p \<and> toolVec (cycle p) = toolVec p"
  by (simp add: cycle_def for_algs_vecs)

lemma while_loop_vecs:
  assumes "while_loop p = Some p'"
  shows "algVec p' = algVec p \<and> toolVec p' = toolVec p"
proof (rule while_loop.raw_induct
    [where P = "\<lambda>x y. algVec y = algVec x \<and> toolVec y = toolVec x", OF _ assms])
  fix loop :: "'a Pipeline \<Rightarrow> 'a Pipeline option" and x y
  assume IH: "\<And>x y. loop x = Some y \<Longrightarrow> algVec y = algVec x \<and> toolVec y = toolVec x"
    and step: "(if runningReaders (cycle x) = {} then Some (cycle x) else loop (cycle x)) = Some y"
  show "algVec y = algVec x \<and> toolVec y = toolVec x"
  proof (cases "runningReaders (cycle x) = {}")
    case True
    with step have "y = cycle x" by simp
    then show ?thesis using cycle_vecs [of x] by simp
  next
    case False
    with step have "loop (cycle x) = Some y" by simp
    from IH [OF this] show ?thesis using cycle_vecs [of x] by simp
  qed
qed

lemma finish_vecs:
  "finish self p = Inr p' \<Longrightarrow> algVec p' = algVec p \<and> toolVec p' = toolVec p"
  by (auto simp: finish_def cd_default_def getOutFile_def
      split: sum.splits prod.splits option.splits if_splits)

lemma muon_load_and_connect:
  "\<exists>p1. load_and_connect 100 [''run1.root''] muon_pipeline = Inr p1 \<and>
        length (algVec p1) = 3 \<and> length (toolVec p1) = 1 \<and> runningReaders p1 = {1, 2}"
  by (simp add: load_and_connect_def muon_pipeline_eq Pipeline_new_def do_connect_def mock_defs)

lemma muon_process:
  "\<exists>p2. process 100 [''run1.root''] muon_pipeline = Some (Inr p2) \<and>
        length (algVec p2) = 3 \<and> length (toolVec p2) = 1 \<and> cycles p2 = 1 \<and>
        calls p2 = [(0, Continue), (1, EndOfFile), (2, EndOfFile)]"
  by (simp add: process_def load_and_connect_def muon_pipeline_eq Pipeline_new_def do_connect_def
      mock_defs while_loop.simps cycle_def body_def finish_def cd_default_def)

text \<open>
  C9 (as the code has it): registration does not establish the back pointer. After
  \<^verbatim>\<open>makeAlg\<close> or \<^verbatim>\<open>makeTool\<close> the new component is the last element of its vector
  and its \<open>pipe\<close> has no value. The pointer is assigned by \<^verbatim>\<open>do_connect\<close> in the
  connect phase of \<^verbatim>\<open>process\<close>: once the load and connect phases have returned, every
  algorithm and every tool points to the pipeline that runs \<^verbatim>\<open>process\<close>. The loop and
  the steps after it leave the back pointers as they are, so the same holds when
  \<^verbatim>\<open>process\<close> has returned.
\<close>

theorem back_reference_set_by_connect:
  "algVec (snd (makeAlg a p)) = algVec p @ [a\<lparr>pipe := None\<rparr>] \<and>
   toolVec (snd (makeTool t p)) = toolVec p @ [t\<lparr>pipe := None\<rparr>] \<and>
   (load_and_connect self inFiles p = Inr p1 \<longrightarrow>
      (\<forall>x\<in>set (algVec p1). pipe x = Some self) \<and> (\<forall>x\<in>set (toolVec p1). pipe x = Some self)) \<and>
   (while_loop p = Some q \<longrightarrow>
      map pipe (algVec q) = map pipe (algVec p) \<and> map pipe (toolVec q) = map pipe (toolVec p)) \<and>
   (finish self p = Inr q' \<longrightarrow>
      map pipe (algVec q') = map pipe (algVec p) \<and> map pipe (toolVec q') = map pipe (toolVec p)) \<and>
   (process self inFiles p = Some (Inr p2) \<longrightarrow>
      (\<forall>x\<in>set (algVec p2). pipe x = Some self) \<and> (\<forall>x\<in>set (toolVec p2). pipe x = Some self))"
proof (intro conjI impI)
  show "algVec (snd (makeAlg a p)) = algVec p @ [a\<lparr>pipe := None\<rparr>]"
    by (simp add: makeAlg_def makeThing_def Let_def)
  show "toolVec (snd (makeTool t p)) = toolVec p @ [t\<lparr>pipe := None\<rparr>]"
    by (simp add: makeTool_def makeThing_def)
next
  assume "load_and_connect self inFiles p = Inr p1"
  from load_and_connect_vecs [OF this]
  show "\<forall>x\<in>set (algVec p1). pipe x = Some self" "\<forall>x\<in>set (toolVec p1). pipe x = Some self"
    by auto
next
  assume "while_loop p = Some q"
  from while_loop_vecs [OF this]
  show "map pipe (algVec q) = map pipe (algVec p)" "map pipe (toolVec q) = map pipe (toolVec p)"
    by simp_all
next
  assume "finish self p = Inr q'"
  from finish_vecs [OF this]
  show "map pipe (algVec q') = map pipe (algVec p)" "map pipe (toolVec q') = map pipe (toolVec p)"
    by simp_all
next
  assume pr: "process self inFiles p = Some (Inr p2)"
  then obtain q1 q2 where q: "load_and_connect self inFiles p = Inr q1"
      "while_loop q1 = Some q2" "finish self q2 = Inr p2"
    by (auto simp: process_def split: sum.splits option.splits)
  from load_and_connect_vecs [OF q(1)] while_loop_vecs [OF q(2)] finish_vecs [OF q(3)]
  show "\<forall>x\<in>set (algVec p2). pipe x = Some self" "\<forall>x\<in>set (toolVec p2). pipe x = Some self"
    by auto
qed

theorem back_reference_set_by_connect_witness:
  "map pipe (algVec (snd (makeAlg (logger 0) (Pipeline_new (\<lambda>slot. 0))))) = [None] \<and>
   map pipe (toolVec (snd (makeTool (Tool_base [''Calib'', ''Tool'', ''Node''] (Inr 0))
                             (Pipeline_new (\<lambda>slot::nat. 0::nat))))) = [None] \<and>
   (\<exists>p1. load_and_connect 100 [''run1.root''] muon_pipeline = Inr p1 \<and>
         map pipe (algVec p1) = [Some 100, Some 100, Some 100] \<and>
         map pipe (toolVec p1) = [Some 100]) \<and>
   (\<exists>q. while_loop muon_pipeline = Some q \<and>
         map pipe (algVec q) = [None, None, None] \<and> map pipe (toolVec q) = [None]) \<and>
   (\<exists>q'. finish 100 muon_pipeline = Inr q' \<and>
         map pipe (algVec q') = [None, None, None] \<and> map pipe (toolVec q') = [None]) \<and>
   (\<exists>p2. process 100 [''run1.root''] muon_pipeline = Some (Inr p2) \<and>
         map pipe (algVec p2) = [Some 100, Some 100, Some 100] \<and>
         map pipe (toolVec p2) = [Some 100])"
proof -
  let ?tool = "Tool_base [''Calib'', ''Tool'', ''Node''] (Inr 0) :: (nat \<Rightarrow> nat) Tool"
  let ?new = "Pipeline_new (\<lambda>slot. 0::nat)"
  from muon_load_and_connect obtain p1 where
    p1: "load_and_connect 100 [''run1.root''] muon_pipeline = Inr p1"
      "length (algVec p1) = 3" "length (toolVec p1) = 1" by blast
  from muon_process obtain p2 where
    p2: "process 100 [''run1.root''] muon_pipeline = Some (Inr p2)"
      "length (algVec p2) = 3" "length (toolVec p2) = 1" by blast
  have "\<exists>q. while_loop muon_pipeline = Some q"
    by (simp add: muon_pipeline_eq Pipeline_new_def mock_defs while_loop.simps cycle_def body_def)
  then obtain q where q: "while_loop muon_pipeline = Some q" by blast
  have "\<exists>q'. finish 100 muon_pipeline = Inr q'"
    by (simp add: muon_pipeline_eq Pipeline_new_def mock_defs finish_def cd_default_def)
  then obtain q' where q': "finish 100 muon_pipeline = Inr q'" by blast
  have unset: "map pipe (algVec muon_pipeline) = [None, None, None]"
    "map pipe (toolVec muon_pipeline) = [None]"
    by (simp_all add: muon_pipeline_eq mock_defs)
  note reg = back_reference_set_by_connect
      [where a = "logger 0" and t = ?tool and p = ?new]
  note inst = back_reference_set_by_connect
      [where p = muon_pipeline and self = 100 and inFiles = "[''run1.root'']"
         and ?p1.0 = p1 and ?p2.0 = p2 and q = q and q' = q']
  from reg have a: "algVec (snd (makeAlg (logger 0) ?new)) = algVec ?new @ [(logger 0)\<lparr>pipe := None\<rparr>]"
    and t: "toolVec (snd (makeTool ?tool ?new)) = toolVec ?new @ [?tool\<lparr>pipe := None\<rparr>]"
    by blast+
  from inst p1(1) have "\<forall>x\<in>set (algVec p1). pipe x = Some 100" "\<forall>x\<in>set (toolVec p1). pipe x = Some 100"
    by blast+
  from this [THEN map_const_on_set] p1(2,3)
  have m1: "map pipe (algVec p1) = [Some 100, Some 100, Some 100]" "map pipe (toolVec p1) = [Some 100]"
    by (simp_all add: eval_nat_numeral)
  from inst p2(1) have "\<forall>x\<in>set (algVec p2). pipe x = Some 100" "\<forall>x\<in>set (toolVec p2). pipe x = Some 100"
    by blast+
  from this [THEN map_const_on_set] p2(2,3)
  have m2: "map pipe (algVec p2) = [Some 100, Some 100, Some 100]" "map pipe (toolVec p2) = [Some 100]"
    by (simp_all add: eval_nat_numeral)
  from inst q have "map pipe (algVec q) = map pipe (algVec muon_pipeline)"
    "map pipe (toolVec q) = map pipe (toolVec muon_pipeline)"
    by blast+
  with unset have m3: "map pipe (algVec q) = [None, None, None]" "map pipe (toolVec q) = [None]"
    by simp_all
  from inst q' have "map pipe (algVec q') = map pipe (algVec muon_pipeline)"
    "map pipe (toolVec q') = map pipe (toolVec muon_pipeline)"
    by blast+
  with unset have m4: "map pipe (algVec q') = [None, None, None]" "map pipe (toolVec q') = [None]"
    by simp_all
  from a t have "map pipe (algVec (snd (makeAlg (logger 0) ?new))) = [None]"
    "map pipe (toolVec (snd (makeTool ?tool ?new))) = [None]"
    by (simp_all add: Pipeline_new_def)
  with p1(1) m1 p2(1) m2 q m3 q' m4 show ?thesis by simp
qed

theorem back_reference_unset_after_makeAlg:
  "map pipe (algVec (snd (makeAlg (logger 0) (Pipeline_new (\<lambda>slot. 0))))) = [None]"
  by (simp add: makeAlg_def makeThing_def Pipeline_new_def Let_def)

subsection \<open>One pass over the algorithms\<close>

lemma body_cases:
  obtains (skipped) "isReader alg" "i \<notin> runningReaders p" "body i alg p = (False, p)"
  | (break) "\<not> (isReader alg \<and> i \<notin> runningReaders p)"
      "fst (execute alg (world p)) = SkipToNext"
      "body i alg p = (True, p\<lparr>world := snd (execute alg (world p)),
                                calls := calls p @ [(i, SkipToNext)]\<rparr>)"
  | (eof) "\<not> (isReader alg \<and> i \<notin> runningReaders p)"
      "fst (execute alg (world p)) = EndOfFile"
      "body i alg p = (False, p\<lparr>world := snd (execute alg (world p)),
                                 calls := calls p @ [(i, EndOfFile)],
                                 runningReaders := runningReaders p - {i}\<rparr>)"
  | (continue) "\<not> (isReader alg \<and> i \<notin> runningReaders p)"
      "fst (execute alg (world p)) = Continue"
      "body i alg p = (False, p\<lparr>world := snd (execute alg (world p)),
                                 calls := calls p @ [(i, Continue)]\<rparr>)"
proof (cases "isReader alg \<and> i \<notin> runningReaders p")
  case True
  then have "body i alg p = (False, p)" by (simp add: body_def)
  with True show ?thesis using skipped by blast
next
  case False
  show ?thesis
  proof (cases "fst (execute alg (world p))")
    case Continue
    with False have "body i alg p = (False, p\<lparr>world := snd (execute alg (world p)),
                                 calls := calls p @ [(i, Continue)]\<rparr>)"
      by (auto simp: body_def Let_def case_prod_beta)
    with False Continue show ?thesis by (rule continue)
  next
    case SkipToNext
    with False have "body i alg p = (True, p\<lparr>world := snd (execute alg (world p)),
                                calls := calls p @ [(i, SkipToNext)]\<rparr>)"
      by (auto simp: body_def Let_def case_prod_beta)
    with False SkipToNext show ?thesis by (rule break)
  next
    case EndOfFile
    with False have "body i alg p = (False, p\<lparr>world := snd (execute alg (world p)),
                                 calls := calls p @ [(i, EndOfFile)],
                                 runningReaders := runningReaders p - {i}\<rparr>)"
      by (auto simp: body_def Let_def case_prod_beta)
    with False EndOfFile show ?thesis by (rule eof)
  qed
qed

lemma for_algs_calls_ext: "\<exists>new. calls (for_algs i algs p) = calls p @ new"
proof (induction algs arbitrary: i p)
  case Nil
  show ?case by simp
next
  case (Cons alg rest)
  show ?case
  proof (cases i alg p rule: body_cases)
    case skipped
    with Cons.IH [of "Suc i" p] show ?thesis by simp
  next
    case break
    then show ?thesis by simp
  next
    case eof
    from Cons.IH [of "Suc i" "snd (body i alg p)"] eof(3) show ?thesis by auto
  next
    case continue
    from Cons.IH [of "Suc i" "snd (body i alg p)"] continue(3) show ?thesis by auto
  qed
qed

lemma for_algs_log:
  "calls (for_algs i algs p) = calls p @ new \<Longrightarrow>
   (\<forall>(k, s)\<in>set new. i \<le> k) \<and>
   (\<forall>j. (j, SkipToNext) \<in> set new \<longrightarrow>
        (\<exists>pre. new = pre @ [(j, SkipToNext)] \<and> (\<forall>(k, s)\<in>set pre. k < j)))"
proof (induction algs arbitrary: i p new)
  case Nil
  then show ?case by simp
next
  case (Cons alg rest)
  show ?case
  proof (cases i alg p rule: body_cases)
    case skipped
    with Cons.prems have "calls (for_algs (Suc i) rest p) = calls p @ new" by simp
    from Cons.IH [OF this] show ?thesis by (auto simp: Suc_le_eq less_imp_le)
  next
    case break
    with Cons.prems have "new = [(i, SkipToNext)]" by simp
    then show ?thesis by simp
  next
    case eof
    let ?q = "snd (body i alg p)"
    from for_algs_calls_ext [of "Suc i" rest ?q] obtain new' where
      n': "calls (for_algs (Suc i) rest ?q) = calls ?q @ new'" by blast
    with eof(3) Cons.prems have new: "new = (i, EndOfFile) # new'" by simp
    from Cons.IH [OF n'] have
      lo: "\<forall>(k, s)\<in>set new'. Suc i \<le> k" and
      sk: "\<forall>j. (j, SkipToNext) \<in> set new' \<longrightarrow>
        (\<exists>pre. new' = pre @ [(j, SkipToNext)] \<and> (\<forall>(k, s)\<in>set pre. k < j))" by blast+
    have 1: "\<forall>(k, s)\<in>set new. i \<le> k" using lo new by auto
    have 2: "\<exists>pre. new = pre @ [(j, SkipToNext)] \<and> (\<forall>(k, s)\<in>set pre. k < j)"
      if "(j, SkipToNext) \<in> set new" for j
    proof -
      from that new have in': "(j, SkipToNext) \<in> set new'" by simp
      with sk obtain pre where pre: "new' = pre @ [(j, SkipToNext)]" "\<forall>(k, s)\<in>set pre. k < j"
        by blast
      from in' lo have "Suc i \<le> j" by auto
      with pre new have "new = ((i, EndOfFile) # pre) @ [(j, SkipToNext)] \<and>
          (\<forall>(k, s)\<in>set ((i, EndOfFile) # pre). k < j)" by auto
      then show ?thesis by blast
    qed
    from 1 2 show ?thesis by blast
  next
    case continue
    let ?q = "snd (body i alg p)"
    from for_algs_calls_ext [of "Suc i" rest ?q] obtain new' where
      n': "calls (for_algs (Suc i) rest ?q) = calls ?q @ new'" by blast
    with continue(3) Cons.prems have new: "new = (i, Continue) # new'" by simp
    from Cons.IH [OF n'] have
      lo: "\<forall>(k, s)\<in>set new'. Suc i \<le> k" and
      sk: "\<forall>j. (j, SkipToNext) \<in> set new' \<longrightarrow>
        (\<exists>pre. new' = pre @ [(j, SkipToNext)] \<and> (\<forall>(k, s)\<in>set pre. k < j))" by blast+
    have 1: "\<forall>(k, s)\<in>set new. i \<le> k" using lo new by auto
    have 2: "\<exists>pre. new = pre @ [(j, SkipToNext)] \<and> (\<forall>(k, s)\<in>set pre. k < j)"
      if "(j, SkipToNext) \<in> set new" for j
    proof -
      from that new have in': "(j, SkipToNext) \<in> set new'" by simp
      with sk obtain pre where pre: "new' = pre @ [(j, SkipToNext)]" "\<forall>(k, s)\<in>set pre. k < j"
        by blast
      from in' lo have "Suc i \<le> j" by auto
      with pre new have "new = ((i, Continue) # pre) @ [(j, SkipToNext)] \<and>
          (\<forall>(k, s)\<in>set ((i, Continue) # pre). k < j)" by auto
      then show ?thesis by blast
    qed
    from 1 2 show ?thesis by blast
  qed
qed

lemma cycle_calls_ext: "\<exists>new. calls (cycle p) = calls p @ new"
  using for_algs_calls_ext [of 0 "algVec p" "p\<lparr>cycles := Suc (cycles p)\<rparr>"]
  by (simp add: cycle_def)

text \<open>
  C3: when the algorithm at position \<open>i\<close> is invoked and returns \<open>SkipToNext\<close>, the
  body of the loop breaks: the call is recorded, the set of running readers is the one from
  before the call, and the pass ends there, whatever algorithms follow. In the calls of a
  whole cycle, a \<open>SkipToNext\<close> returned at position \<open>j\<close> is the last call of the cycle,
  and every other call of the cycle is at a position below \<open>j\<close>: no algorithm at a
  position above \<open>j\<close> is invoked in that cycle.
\<close>

theorem SkipToNext_ends_cycle:
  "(\<not> (isReader alg \<and> i \<notin> runningReaders p) \<and> fst (execute alg (world p)) = SkipToNext \<longrightarrow>
      body i alg p = (True, p\<lparr>world := snd (execute alg (world p)),
                              calls := calls p @ [(i, SkipToNext)]\<rparr>) \<and>
      runningReaders (snd (body i alg p)) = runningReaders p \<and>
      for_algs i (alg # rest) p = snd (body i alg p)) \<and>
   (calls (cycle p) = calls p @ new \<and> (j, SkipToNext) \<in> set new \<longrightarrow>
      (\<exists>pre. new = pre @ [(j, SkipToNext)] \<and> (\<forall>(k, s)\<in>set pre. k < j)))"
proof (intro conjI impI)
  assume a: "\<not> (isReader alg \<and> i \<notin> runningReaders p) \<and> fst (execute alg (world p)) = SkipToNext"
  then show b: "body i alg p = (True, p\<lparr>world := snd (execute alg (world p)),
                              calls := calls p @ [(i, SkipToNext)]\<rparr>)"
    by (auto simp: body_def Let_def case_prod_beta)
  then show "runningReaders (snd (body i alg p)) = runningReaders p"
    and "for_algs i (alg # rest) p = snd (body i alg p)"
    by simp_all
next
  assume a: "calls (cycle p) = calls p @ new \<and> (j, SkipToNext) \<in> set new"
  then have "calls (for_algs 0 (algVec p) (p\<lparr>cycles := Suc (cycles p)\<rparr>))
               = calls (p\<lparr>cycles := Suc (cycles p)\<rparr>) @ new"
    by (simp add: cycle_def)
  from for_algs_log [OF this] a
  show "\<exists>pre. new = pre @ [(j, SkipToNext)] \<and> (\<forall>(k, s)\<in>set pre. k < j)"
    by blast
qed

theorem SkipToNext_ends_cycle_witness:
  "fst (body 1 (selector 1) veto_pipeline) = True \<and>
   calls (snd (body 1 (selector 1) veto_pipeline)) = [(1, SkipToNext)] \<and>
   runningReaders (snd (body 1 (selector 1) veto_pipeline)) = {0} \<and>
   for_algs 1 [selector 1, logger 2] veto_pipeline = snd (body 1 (selector 1) veto_pipeline) \<and>
   calls (cycle veto_pipeline) = [(0, Continue), (1, SkipToNext)] \<and>
   (\<exists>pre. [(0, Continue), (1, SkipToNext)] = pre @ [(1, SkipToNext)] \<and>
          (\<forall>(k, s)\<in>set pre. k < (1::nat)))"
proof -
  let ?p = veto_pipeline
  have c: "calls (cycle ?p) = calls ?p @ [(0, Continue), (1, SkipToNext)]"
    by (simp add: cycle_def body_def veto_pipeline_eq Pipeline_new_def mock_defs vetoIf_def)
  have h: "\<not> (isReader (selector 1) \<and> 1 \<notin> runningReaders ?p) \<and>
           fst (execute (selector 1) (world ?p)) = SkipToNext"
    by (simp add: veto_pipeline_eq Pipeline_new_def mock_defs vetoIf_def)
  have i: "(1, SkipToNext) \<in> set [(0::nat, Continue), (1, SkipToNext)]" by simp
  have e: "calls ?p = []" "runningReaders ?p = {0}"
    by (simp_all add: veto_pipeline_eq Pipeline_new_def)
  from SkipToNext_ends_cycle
         [of "selector 1" 1 ?p "[logger 2]" "[(0, Continue), (1, SkipToNext)]" 1] c h i
  have "body 1 (selector 1) ?p
          = (True, ?p\<lparr>world := snd (execute (selector 1) (world ?p)),
                      calls := calls ?p @ [(1, SkipToNext)]\<rparr>)"
    and "runningReaders (snd (body 1 (selector 1) ?p)) = runningReaders ?p"
    and "for_algs 1 [selector 1, logger 2] ?p = snd (body 1 (selector 1) ?p)"
    and "\<exists>pre. [(0, Continue), (1, SkipToNext)] = pre @ [(1, SkipToNext)] \<and>
          (\<forall>(k, s)\<in>set pre. k < (1::nat))"
    by blast+
  with c e show ?thesis by simp
qed

lemma body_running_later:
  "m < j \<Longrightarrow> j \<in> runningReaders (snd (body m alg p)) \<longleftrightarrow> j \<in> runningReaders p"
  by (cases m alg p rule: body_cases) auto

lemma for_algs_positions:
  "calls (for_algs m algs p) = calls p @ new \<Longrightarrow>
   due = filter (\<lambda>j. \<not> (isReader (algs ! (j - m)) \<and> j \<notin> runningReaders p))
           [m..<m + length algs] \<Longrightarrow>
   map fst new = take (length new) due \<and> length new \<le> length due \<and>
   (length new = length due \<or> (new \<noteq> [] \<and> snd (last new) = SkipToNext))"
proof (induction algs arbitrary: m p new due)
  case Nil
  then show ?case by simp
next
  case (Cons alg rest)
  let ?q = "snd (body m alg p)"
  define due' where
    "due' = filter (\<lambda>j. \<not> (isReader (rest ! (j - Suc m)) \<and> j \<notin> runningReaders ?q))
              [Suc m..<Suc m + length rest]"
  have tail: "filter (\<lambda>j. \<not> (isReader ((alg # rest) ! (j - m)) \<and> j \<notin> runningReaders p))
                 [Suc m..<Suc m + length rest] = due'"
    unfolding due'_def
  proof (rule filter_cong [OF refl])
    fix j assume "j \<in> set [Suc m..<Suc m + length rest]"
    then have lt: "m < j" by auto
    then have "j - m = Suc (j - Suc m)" by simp
    then have "(alg # rest) ! (j - m) = rest ! (j - Suc m)" by simp
    with body_running_later [OF lt, of alg p]
    show "(\<not> (isReader ((alg # rest) ! (j - m)) \<and> j \<notin> runningReaders p))
            = (\<not> (isReader (rest ! (j - Suc m)) \<and> j \<notin> runningReaders ?q))"
      by simp
  qed
  have upt: "[m..<m + length (alg # rest)] = m # [Suc m..<Suc m + length rest]"
    by (subst upt_conv_Cons) simp_all
  from Cons.prems(2) have due: "due = (if \<not> (isReader alg \<and> m \<notin> runningReaders p)
                                      then m # due' else due')"
    by (simp only: upt filter.simps tail diff_self_eq_0 nth_Cons_0)
  from for_algs_calls_ext [of "Suc m" rest ?q] obtain new' where
    n': "calls (for_algs (Suc m) rest ?q) = calls ?q @ new'" by blast
  from Cons.IH [OF n' due'_def] have
    IH: "map fst new' = take (length new') due' \<and> length new' \<le> length due' \<and>
         (length new' = length due' \<or> (new' \<noteq> [] \<and> snd (last new') = SkipToNext))" .
  show ?case
  proof (cases m alg p rule: body_cases)
    case skipped
    with n' Cons.prems(1) have "new = new'" by simp
    moreover from due skipped(1,2) have "due = due'" by simp
    ultimately show ?thesis using IH by simp
  next
    case break
    with Cons.prems(1) have "new = [(m, SkipToNext)]" by simp
    moreover from due break(1) have "due = m # due'" by simp
    ultimately show ?thesis by simp
  next
    case eof
    with n' Cons.prems(1) have "new = (m, EndOfFile) # new'" by simp
    moreover from due eof(1) have "due = m # due'" by simp
    ultimately show ?thesis using IH by auto
  next
    case continue
    with n' Cons.prems(1) have "new = (m, Continue) # new'" by simp
    moreover from due continue(1) have "due = m # due'" by simp
    ultimately show ?thesis using IH by auto
  qed
qed

text \<open>
  C4: when a running reader at position \<open>i\<close> returns \<open>EndOfFile\<close>, the body of the
  loop records the call, removes \<open>i\<close> and nothing else from the set of running readers,
  and does not break: the pass goes on with the algorithms that follow, from position
  \<open>i + 1\<close>. The next algorithm, unless it is a reader that has already ended, is the
  next one invoked. Over the whole rest of the pass: let \<open>due\<close> be the positions after
  \<open>i\<close>, in increasing order, of the algorithms that are not readers ended before this
  pass. The calls of the pass from \<open>i\<close> on are the call at \<open>i\<close> followed by calls at
  the positions of \<open>due\<close>, one each and in this order; they reach all of \<open>due\<close>, or
  the last of them returned \<open>SkipToNext\<close>.
\<close>

theorem EndOfFile_removes_reader:
  "isReader alg \<and> i \<in> runningReaders p \<and> fst (execute alg (world p)) = EndOfFile \<Longrightarrow>
   body i alg p = (False, p\<lparr>world := snd (execute alg (world p)),
                            calls := calls p @ [(i, EndOfFile)],
                            runningReaders := runningReaders p - {i}\<rparr>) \<and>
   for_algs i (alg # rest) p = for_algs (Suc i) rest (snd (body i alg p)) \<and>
   (\<forall>nxt rest'. rest = nxt # rest' \<and> \<not> (isReader nxt \<and> Suc i \<notin> runningReaders p) \<longrightarrow>
      (\<exists>st post. calls (for_algs i (alg # rest) p)
                   = calls p @ (i, EndOfFile) # (Suc i, st) # post)) \<and>
   (\<forall>new due.
      calls (for_algs i (alg # rest) p) = calls p @ new \<and>
      due = filter (\<lambda>j. \<not> (isReader (rest ! (j - Suc i)) \<and> j \<notin> runningReaders p))
              [Suc i..<Suc i + length rest] \<longrightarrow>
      map fst new = take (length new) (i # due) \<and>
      (length new = Suc (length due) \<or> snd (last new) = SkipToNext))"
proof -
  assume a: "isReader alg \<and> i \<in> runningReaders p \<and> fst (execute alg (world p)) = EndOfFile"
  let ?q = "p\<lparr>world := snd (execute alg (world p)), calls := calls p @ [(i, EndOfFile)],
              runningReaders := runningReaders p - {i}\<rparr>"
  from a have b: "body i alg p = (False, ?q)"
    by (auto simp: body_def Let_def case_prod_beta)
  then have f: "for_algs i (alg # rest) p = for_algs (Suc i) rest (snd (body i alg p))"
    by simp
  have n: "\<exists>st post. calls (for_algs i (alg # rest) p)
                   = calls p @ (i, EndOfFile) # (Suc i, st) # post"
    if r: "rest = nxt # rest'" and inv: "\<not> (isReader nxt \<and> Suc i \<notin> runningReaders p)"
    for nxt rest'
  proof -
    from inv have inv': "\<not> (isReader nxt \<and> Suc i \<notin> runningReaders ?q)" by simp
    obtain fl q' where bq: "body (Suc i) nxt ?q = (fl, q')" by (cases "body (Suc i) nxt ?q")
    with inv' obtain st where c: "calls q' = calls ?q @ [(Suc i, st)]"
      by (cases "Suc i" nxt ?q rule: body_cases) auto
    from for_algs_calls_ext [of "Suc (Suc i)" rest' q'] obtain post where
      "calls (for_algs (Suc (Suc i)) rest' q') = calls q' @ post" by blast
    with c bq b r have "calls (for_algs i (alg # rest) p)
                   = calls p @ (i, EndOfFile) # (Suc i, st) # (if fl then [] else post)"
      by (cases fl) simp_all
    then show ?thesis by blast
  qed
  have all: "map fst new = take (length new) (i # due) \<and>
      (length new = Suc (length due) \<or> snd (last new) = SkipToNext)"
    if c: "calls (for_algs i (alg # rest) p) = calls p @ new"
      and d: "due = filter (\<lambda>j. \<not> (isReader (rest ! (j - Suc i)) \<and> j \<notin> runningReaders p))
              [Suc i..<Suc i + length rest]"
    for new due
  proof -
    from for_algs_calls_ext [of "Suc i" rest ?q] obtain new' where
      n': "calls (for_algs (Suc i) rest ?q) = calls ?q @ new'" by blast
    with b c have new: "new = (i, EndOfFile) # new'" by simp
    have d': "due = filter (\<lambda>j. \<not> (isReader (rest ! (j - Suc i)) \<and> j \<notin> runningReaders ?q))
              [Suc i..<Suc i + length rest]"
      unfolding d by (rule filter_cong [OF refl]) auto
    from for_algs_positions [OF n' d'] new show ?thesis by auto
  qed
  from b f n all show ?thesis by blast
qed

theorem EndOfFile_removes_reader_witness:
  "fst (body 0 (reader_until ''MuonReader'' 0 1) eof_first_pipeline) = False \<and>
   runningReaders (snd (body 0 (reader_until ''MuonReader'' 0 1) eof_first_pipeline)) = {} \<and>
   calls (snd (body 0 (reader_until ''MuonReader'' 0 1) eof_first_pipeline)) = [(0, EndOfFile)] \<and>
   (\<exists>st post. calls (for_algs 0 [reader_until ''MuonReader'' 0 1, logger 1, logger 2]
                        eof_first_pipeline)
                = (0, EndOfFile) # (1, st) # post) \<and>
   calls (for_algs 0 [reader_until ''MuonReader'' 0 1, logger 1, logger 2] eof_first_pipeline)
     = [(0, EndOfFile), (1, Continue), (2, Continue)] \<and>
   map fst [(0::nat, EndOfFile), (1, Continue), (2, Continue)] = take 3 [0, 1, 2]"
proof -
  let ?p = eof_first_pipeline and ?r = "reader_until ''MuonReader'' 0 1"
  let ?rest = "[logger 1, logger 2]"
  let ?new = "[(0::nat, EndOfFile), (1, Continue), (2, Continue)]"
  have h: "isReader ?r \<and> 0 \<in> runningReaders ?p \<and> fst (execute ?r (world ?p)) = EndOfFile"
    by (simp add: eof_first_pipeline_eq Pipeline_new_def mock_defs)
  have n: "\<not> (isReader (logger 1) \<and> Suc 0 \<notin> runningReaders ?p)"
    by (simp add: mock_defs)
  have e: "calls ?p = []" "runningReaders ?p - {0} = {}"
    by (simp_all add: eof_first_pipeline_eq Pipeline_new_def)
  have c: "calls (for_algs 0 (?r # ?rest) ?p) = calls ?p @ ?new"
    by (simp add: eof_first_pipeline_eq Pipeline_new_def mock_defs body_def)
  have d: "filter (\<lambda>j. \<not> (isReader (?rest ! (j - Suc 0)) \<and> j \<notin> runningReaders ?p))
             [Suc 0..<Suc 0 + length ?rest] = [1, 2]"
    by (simp add: mock_defs upt_rec)
  from EndOfFile_removes_reader [OF h, of ?rest] n
  have b: "body 0 ?r ?p = (False, ?p\<lparr>world := snd (execute ?r (world ?p)),
                            calls := calls ?p @ [(0, EndOfFile)],
                            runningReaders := runningReaders ?p - {0}\<rparr>)"
    and x: "\<exists>st post. calls (for_algs 0 (?r # ?rest) ?p)
              = calls ?p @ (0, EndOfFile) # (Suc 0, st) # post"
    and y: "\<forall>new due. calls (for_algs 0 (?r # ?rest) ?p) = calls ?p @ new \<and>
      due = filter (\<lambda>j. \<not> (isReader (?rest ! (j - Suc 0)) \<and> j \<notin> runningReaders ?p))
              [Suc 0..<Suc 0 + length ?rest] \<longrightarrow>
      map fst new = take (length new) (0 # due) \<and>
      (length new = Suc (length due) \<or> snd (last new) = SkipToNext)"
    by blast+
  from b e have 1: "fst (body 0 ?r ?p) = False" "runningReaders (snd (body 0 ?r ?p)) = {}"
    "calls (snd (body 0 ?r ?p)) = [(0, EndOfFile)]"
    by simp_all
  from x have 2: "\<exists>st post. calls (for_algs 0 (?r # ?rest) ?p) = (0, EndOfFile) # (1, st) # post"
    by (simp only: e append_Nil One_nat_def [symmetric])
  from c e have 3: "calls (for_algs 0 (?r # ?rest) ?p) = ?new" by simp
  from y c have "map fst ?new = take (length ?new)
      (0 # filter (\<lambda>j. \<not> (isReader (?rest ! (j - Suc 0)) \<and> j \<notin> runningReaders ?p))
              [Suc 0..<Suc 0 + length ?rest])"
    by blast
  then have 4: "map fst ?new = take 3 [0, 1, 2]"
    unfolding d by simp
  from 1 2 3 4 show ?thesis by blast
qed

subsection \<open>The loop\<close>

lemma body_running_subset: "runningReaders (snd (body i alg p)) \<subseteq> runningReaders p"
  by (cases i alg p rule: body_cases) auto

lemma body_cycles: "cycles (snd (body i alg p)) = cycles p"
  by (cases i alg p rule: body_cases) auto

lemma for_algs_running_subset: "runningReaders (for_algs i algs p) \<subseteq> runningReaders p"
proof (induction algs arbitrary: i p)
  case Nil
  show ?case by simp
next
  case (Cons alg rest)
  obtain b p' where bp: "body i alg p = (b, p')" by (cases "body i alg p")
  with body_running_subset [of i alg p] have "runningReaders p' \<subseteq> runningReaders p" by simp
  with bp Cons.IH [of "Suc i" p'] show ?case by (cases b) auto
qed

lemma for_algs_cycles: "cycles (for_algs i algs p) = cycles p"
proof (induction algs arbitrary: i p)
  case Nil
  show ?case by simp
next
  case (Cons alg rest)
  obtain b p' where bp: "body i alg p = (b, p')" by (cases "body i alg p")
  with body_cycles [of i alg p] have "cycles p' = cycles p" by simp
  with bp Cons.IH [of "Suc i" p'] show ?case by (cases b) auto
qed

lemma cycle_running_subset: "runningReaders (cycle p) \<subseteq> runningReaders p"
  using for_algs_running_subset [of 0 "algVec p" "p\<lparr>cycles := Suc (cycles p)\<rparr>"]
  by (simp add: cycle_def)

lemma cycle_cycles: "cycles (cycle p) = Suc (cycles p)"
  by (simp add: cycle_def for_algs_cycles)

lemma for_algs_no_reader:
  "\<forall>a\<in>set algs. \<not> isReader a \<Longrightarrow> calls (for_algs i algs p) = calls p @ new \<Longrightarrow>
   map fst new = [i..<i + length new] \<and>
   (length new = length algs \<or> (new \<noteq> [] \<and> snd (last new) = SkipToNext))"
proof (induction algs arbitrary: i p new)
  case Nil
  then show ?case by simp
next
  case (Cons alg rest)
  from Cons.prems(1) have nr: "\<not> isReader alg" and nrs: "\<forall>a\<in>set rest. \<not> isReader a" by simp_all
  let ?q = "snd (body i alg p)"
  from for_algs_calls_ext [of "Suc i" rest ?q] obtain new' where
    n': "calls (for_algs (Suc i) rest ?q) = calls ?q @ new'" by blast
  from Cons.IH [OF nrs n'] have
    IH1: "map fst new' = [Suc i..<Suc i + length new']" and
    IH2: "length new' = length rest \<or> (new' \<noteq> [] \<and> snd (last new') = SkipToNext)"
    by blast+
  have ext: "map fst ((i, st) # new') = [i..<i + length ((i, st) # new')] \<and>
      (length ((i, st) # new') = length (alg # rest) \<or>
       ((i, st) # new' \<noteq> [] \<and> snd (last ((i, st) # new')) = SkipToNext))" for st
    using IH1 IH2 by (auto simp: upt_rec [of i])
  show ?case
  proof (cases i alg p rule: body_cases)
    case skipped
    with nr show ?thesis by simp
  next
    case break
    with Cons.prems(2) have "new = [(i, SkipToNext)]" by simp
    then show ?thesis by simp
  next
    case eof
    with n' Cons.prems(2) have "new = (i, EndOfFile) # new'" by simp
    with ext [of EndOfFile] show ?thesis by simp
  next
    case continue
    with n' Cons.prems(2) have "new = (i, Continue) # new'" by simp
    with ext [of Continue] show ?thesis by simp
  qed
qed

lemma load_and_connect_running:
  "load_and_connect self inFiles p = Inr p1 \<Longrightarrow> runningReaders p1 = runningReaders p"
  by (auto simp: load_and_connect_def Let_def split: sum.splits prod.splits)

lemma while_loop_no_running:
  assumes "runningReaders p = {}"
  shows "while_loop p = Some (cycle p)"
proof -
  from assms cycle_running_subset [of p] have "runningReaders (cycle p) = {}" by blast
  then show ?thesis by (subst while_loop.simps) simp
qed

text \<open>
  C1 (as the code has it): the test that ends the loop stands at the end of the body of
  \<^verbatim>\<open>while (true)\<close>, so the body runs once before the set of running readers is looked
  at. When that set is empty and no registered algorithm is a reader, the loop runs exactly
  one cycle and ends. The calls of that cycle are at the positions \<open>0, 1, 2, \<dots>\<close> in this
  order, one call each; they reach every algorithm, or they stop after a call that
  returned \<open>SkipToNext\<close>. \<^verbatim>\<open>process\<close> then goes on to the steps after the loop: it is
  the load and connect phases, one cycle, and \<open>finish\<close>.
\<close>

theorem no_reader_runs_one_cycle:
  assumes "runningReaders p = {}" and "\<forall>a\<in>set (algVec p). \<not> isReader a"
  shows "while_loop p = Some (cycle p) \<and> cycles (cycle p) = Suc (cycles p) \<and>
         (\<exists>new. calls (cycle p) = calls p @ new \<and> map fst new = [0..<length new] \<and>
                (length new = length (algVec p) \<or>
                 (new \<noteq> [] \<and> snd (last new) = SkipToNext))) \<and>
         (\<forall>self inFiles.
            process self inFiles p =
              (case load_and_connect self inFiles p of
                 Inl e \<Rightarrow> Some (Inl e)
               | Inr p1 \<Rightarrow> Some (finish self (cycle p1))))"
proof -
  let ?p0 = "p\<lparr>cycles := Suc (cycles p)\<rparr>"
  from cycle_calls_ext [of p] obtain new where new: "calls (cycle p) = calls p @ new" by blast
  then have "calls (for_algs 0 (algVec p) ?p0) = calls ?p0 @ new" by (simp add: cycle_def)
  from for_algs_no_reader [OF assms(2) this] new
  have log: "\<exists>new. calls (cycle p) = calls p @ new \<and> map fst new = [0..<length new] \<and>
                (length new = length (algVec p) \<or>
                 (new \<noteq> [] \<and> snd (last new) = SkipToNext))"
    by auto
  have proc: "process self inFiles p =
              (case load_and_connect self inFiles p of
                 Inl e \<Rightarrow> Some (Inl e)
               | Inr p1 \<Rightarrow> Some (finish self (cycle p1)))" for self inFiles
  proof (cases "load_and_connect self inFiles p")
    case (Inl e)
    then show ?thesis by (simp add: process_def)
  next
    case (Inr p1)
    from load_and_connect_running [OF Inr] assms(1) have "runningReaders p1 = {}" by simp
    from while_loop_no_running [OF this] Inr show ?thesis by (simp add: process_def)
  qed
  from while_loop_no_running [OF assms(1)] cycle_cycles [of p] log proc
  show ?thesis by blast
qed

theorem no_reader_runs_one_cycle_witness:
  "while_loop logger_pipeline = Some (cycle logger_pipeline) \<and>
   cycles (cycle logger_pipeline) = 1 \<and>
   (\<exists>new. calls (cycle logger_pipeline) = new \<and> map fst new = [0..<length new] \<and>
          (length new = 1 \<or> (new \<noteq> [] \<and> snd (last new) = SkipToNext))) \<and>
   process 100 [''run1.root''] logger_pipeline
     = Some (finish 100
         (cycle (logger_pipeline\<lparr>algVec := [(logger 0)\<lparr>pipe := Some 100\<rparr>],
                                 inFilePaths := [''run1.root'']\<rparr>)))"
proof -
  have h: "runningReaders logger_pipeline = {}" "\<forall>a\<in>set (algVec logger_pipeline). \<not> isReader a"
    by (simp_all add: logger_pipeline_eq Pipeline_new_def mock_defs)
  have e: "cycles logger_pipeline = 0" "calls logger_pipeline = []"
    "length (algVec logger_pipeline) = 1"
    by (simp_all add: logger_pipeline_eq Pipeline_new_def)
  have l: "load_and_connect 100 [''run1.root''] logger_pipeline
             = Inr (logger_pipeline\<lparr>algVec := [(logger 0)\<lparr>pipe := Some 100\<rparr>],
                                    inFilePaths := [''run1.root'']\<rparr>)"
    by (simp add: load_and_connect_def logger_pipeline_eq Pipeline_new_def do_connect_def mock_defs)
  from no_reader_runs_one_cycle [OF h]
  have 1: "while_loop logger_pipeline = Some (cycle logger_pipeline)"
    and 2: "cycles (cycle logger_pipeline) = Suc (cycles logger_pipeline)"
    and 3: "\<exists>new. calls (cycle logger_pipeline) = calls logger_pipeline @ new \<and>
              map fst new = [0..<length new] \<and>
              (length new = length (algVec logger_pipeline) \<or>
               (new \<noteq> [] \<and> snd (last new) = SkipToNext))"
    and 4: "process 100 [''run1.root''] logger_pipeline =
              (case load_and_connect 100 [''run1.root''] logger_pipeline of
                 Inl e \<Rightarrow> Some (Inl e)
               | Inr p1 \<Rightarrow> Some (finish 100 (cycle p1)))"
    by blast+
  from 3 have log: "\<exists>new. calls (cycle logger_pipeline) = new \<and> map fst new = [0..<length new] \<and>
          (length new = 1 \<or> (new \<noteq> [] \<and> snd (last new) = SkipToNext))"
    by (simp only: e append_Nil)
  from 1 2 log 4 e l show ?thesis by simp
qed

theorem execute_invoked_without_readers:
  "runningReaders logger_pipeline = {} \<and>
   calls logger_pipeline = [] \<and>
   map_option (map_sum id calls) (process 100 [''run1.root''] logger_pipeline)
     = Some (Inr [(0, Continue)])"
  by (simp add: process_def load_and_connect_def logger_pipeline_eq Pipeline_new_def do_connect_def
      mock_defs while_loop.simps cycle_def body_def finish_def cd_default_def)

subsection \<open>Termination of the loop\<close>

















end
